theory Spec2Isabelle
  imports Main "HOL-Library.Multiset"
begin

section \<open>Pixiv mobile client: ugoira detection\<close>

text \<open>
  The processed artwork entries are Go values of type \<^verbatim>\<open>map[string]string\<close>. Reading a
  key that is absent yields the empty string in Go; \<open>go_lookup\<close> writes that out.
\<close>

type_synonym artwork = "string \<rightharpoonup> string"

definition go_lookup :: "artwork \<Rightarrow> string \<Rightarrow> string" where
  "go_lookup m k = (case m k of None \<Rightarrow> [] | Some v \<Rightarrow> v)"

text \<open>
  \<^verbatim>\<open>models.Ugoira\<close> as built by \<^verbatim>\<open>GetUgoiraMetadata\<close>, and the part of the decoded
  \<^verbatim>\<open>models.UgoiraJson\<close> that function reads. The frame table is produced by
  \<^verbatim>\<open>MapDelaysToFilename\<close>, which is not among the sources; the frames are carried as
  the pairs of file name and delay it is applied to.
\<close>

record Ugoira =
  Url :: string
  Frames :: "(string \<times> int) list"
  FilePath :: string

record UgoiraJson =
  ZipUrlsMedium :: string
  MetadataFrames :: "(string \<times> int) list"

text \<open>\<^verbatim>\<open>strings.Replace(s, old, new, 1)\<close>: the first occurrence of \<open>old\<close> only.\<close>

fun replace_first :: "string \<Rightarrow> string \<Rightarrow> string \<Rightarrow> string" where
  "replace_first [] old new = (if old = [] then new else [])"
| "replace_first (c # cs) old new =
     (if take (length old) (c # cs) = old then new @ drop (length old) (c # cs)
      else c # replace_first cs old new)"

text \<open>
  \<^verbatim>\<open>GetUgoiraMetadata(illustId, postDownloadDir)\<close>. The request may fail; the function
  then logs and goes on with the zero value of the JSON structure, so it returns a
  \<open>Ugoira\<close> in every case. The argument \<open>ugoiraJson\<close> is the structure as the
  function reads it after \<^verbatim>\<open>SendRequest\<close> has returned.
\<close>

definition GetUgoiraMetadata :: "UgoiraJson \<Rightarrow> string \<Rightarrow> string \<Rightarrow> Ugoira" where
  "GetUgoiraMetadata ugoiraJson illustId postDownloadDir =
     \<lparr> Url = replace_first (ZipUrlsMedium ugoiraJson) ''600x600'' ''1920x1080'',
       Frames = MetadataFrames ugoiraJson,
       FilePath = postDownloadDir \<rparr>"

text \<open>
  \<^verbatim>\<open>CheckForUgoira\<close>. The network is a function from the artwork id asked for and the
  number of metadata calls made so far to the decoded answer; the loop threads the call
  counter. The accumulators \<open>filteredArtworks\<close> and \<open>ugoiraSlice\<close> grow by
  \<^verbatim>\<open>append\<close>, as in the source. The pause between calls has no effect on the result.
\<close>

fun CheckForUgoira_loop ::
  "(string \<Rightarrow> nat \<Rightarrow> UgoiraJson) \<Rightarrow> artwork list \<Rightarrow> artwork list \<Rightarrow> Ugoira list \<Rightarrow> nat
     \<Rightarrow> artwork list \<times> Ugoira list \<times> nat" where
  "CheckForUgoira_loop net [] filteredArtworks ugoiraSlice calls =
     (filteredArtworks, ugoiraSlice, calls)"
| "CheckForUgoira_loop net (artwork # rest) filteredArtworks ugoiraSlice calls =
     (if artwork ''artwork_id'' \<noteq> None then
        (let ugoiraInfo =
               GetUgoiraMetadata (net (go_lookup artwork ''artwork_id'') calls)
                 (go_lookup artwork ''artwork_id'') (go_lookup artwork ''filepath'')
         in CheckForUgoira_loop net rest filteredArtworks (ugoiraSlice @ [ugoiraInfo]) (Suc calls))
      else CheckForUgoira_loop net rest (filteredArtworks @ [artwork]) ugoiraSlice calls)"

definition CheckForUgoira ::
  "(string \<Rightarrow> nat \<Rightarrow> UgoiraJson) \<Rightarrow> nat \<Rightarrow> artwork list \<Rightarrow> artwork list \<times> Ugoira list \<times> nat" where
  "CheckForUgoira net calls artworksToDownload =
     CheckForUgoira_loop net artworksToDownload [] [] calls"

definition has_artwork_id :: "artwork \<Rightarrow> bool" where
  "has_artwork_id a = (a ''artwork_id'' \<noteq> None)"

text \<open>The metadata calls the loop makes for a list of entries, first call numbered \<open>calls\<close>.\<close>

fun ugoira_of :: "(string \<Rightarrow> nat \<Rightarrow> UgoiraJson) \<Rightarrow> nat \<Rightarrow> artwork list \<Rightarrow> Ugoira list" where
  "ugoira_of net calls [] = []"
| "ugoira_of net calls (a # as) =
     GetUgoiraMetadata (net (go_lookup a ''artwork_id'') calls)
       (go_lookup a ''artwork_id'') (go_lookup a ''filepath'') # ugoira_of net (Suc calls) as"

section \<open>Pixiv mobile client: access token and requests\<close>

text \<open>
  \<^verbatim>\<open>accessTokenInfo\<close>. A \<^verbatim>\<open>time.Time\<close> is modelled as the number of nanoseconds since
  the Unix epoch, an unbounded integer: the instants involved are far inside the range of
  \<^verbatim>\<open>time.Time\<close>. A \<^verbatim>\<open>time.Duration\<close> is a signed 64-bit count of nanoseconds and
  does wrap; \<open>wrap64\<close> writes the two's-complement wrap-around out.
\<close>

record accessTokenInfo =
  accessToken :: string
  expiresAt :: int

text \<open>
  The fields of \<^verbatim>\<open>models.PixivOauthJson\<close> that \<^verbatim>\<open>RefreshAccessToken\<close> reads. The
  declaration is not among the sources; \<open>ExpiresIn\<close> is taken to be a Go \<^verbatim>\<open>int\<close> of
  64 bits, so its values lie in \<open>{- 2^63 ..< 2^63}\<close>.
\<close>

record PixivOauthJson =
  AccessToken :: string
  ExpiresIn :: int

text \<open>
  What the token endpoint answers to one refresh call: the call itself fails, or a response
  arrives with a status code and a body that decodes (\<open>Some\<close>) or does not (\<open>None\<close>).
\<close>

datatype oauth_reply = CallFailed | Reply int "PixivOauthJson option"

datatype request_error =
  NewRequestError | ConnectionError | ResponseError | JsonError | RetriesExhausted

definition wrap64 :: "int \<Rightarrow> int" where
  "wrap64 x = (x + 2 ^ 63) mod 2 ^ 64 - 2 ^ 63"

definition Second :: int where
  "Second = 1000000000"

text \<open>
  \<^verbatim>\<open>RefreshAccessToken\<close>, without the mutex (the interleaving of callers is modelled
  further down). \<open>now\<close> is the value of \<^verbatim>\<open>time.Now()\<close> on the last line of the source
  function.
\<close>

definition RefreshAccessToken ::
  "int \<Rightarrow> oauth_reply \<Rightarrow> accessTokenInfo \<Rightarrow> request_error option \<times> accessTokenInfo" where
  "RefreshAccessToken now reply tok =
     (case reply of
        CallFailed \<Rightarrow> (Some ConnectionError, tok)
      | Reply StatusCode body \<Rightarrow>
          if StatusCode \<noteq> 200 then (Some ResponseError, tok)
          else (case body of
                  None \<Rightarrow> (Some JsonError, tok)
                | Some oauthJson \<Rightarrow>
                    (let expiresIn = wrap64 (ExpiresIn oauthJson - 15)
                     in (None, \<lparr> accessToken = AccessToken oauthJson,
                                 expiresAt = now + wrap64 (expiresIn * Second) \<rparr>))))"

text \<open>The test at the head of \<^verbatim>\<open>RefreshTokenIfReq\<close>, read at the instant \<open>now\<close>.\<close>

definition token_valid :: "accessTokenInfo \<Rightarrow> int \<Rightarrow> bool" where
  "token_valid tok now = (accessToken tok \<noteq> [] \<and> now < expiresAt tok)"

text \<open>
  \<^verbatim>\<open>RefreshTokenIfReq\<close> for a single caller: \<open>now\<close> is the clock at the test,
  \<open>now'\<close> the clock when the refresh stores the token. The result is the flag
  \<^verbatim>\<open>refreshed\<close>, the error and the token state.
\<close>

definition RefreshTokenIfReq ::
  "int \<Rightarrow> int \<Rightarrow> oauth_reply \<Rightarrow> accessTokenInfo
     \<Rightarrow> bool \<times> request_error option \<times> accessTokenInfo" where
  "RefreshTokenIfReq now now' reply tok =
     (if token_valid tok now then (False, None, tok)
      else (case RefreshAccessToken now' reply tok of (err, tok') \<Rightarrow> (True, err, tok')))"

text \<open>
  One call of \<^verbatim>\<open>client.Do\<close> followed by \<^verbatim>\<open>LoadJsonFromResponse\<close>: the transport
  fails, or a response arrives with its status code and the flag saying whether decoding
  its body failed.
\<close>

datatype attempt = TransportError | Response int bool

text \<open>
  The retry loop of \<^verbatim>\<open>SendRequest\<close>, \<^verbatim>\<open>for i := 1; i <= utils.RETRY_COUNTER; i++\<close>.
  The constant \<^verbatim>\<open>utils.RETRY_COUNTER\<close> is not among the sources and is a parameter.
  \<open>client_Do i\<close> is what the \<open>i\<close>-th attempt yields. The result is the error returned
  (\<open>None\<close> for \<^verbatim>\<open>nil\<close>) and the number of attempts made. The pause before the next
  attempt has no effect on the result; \<^verbatim>\<open>continue\<close> and falling through to the pause
  both lead to the next \<open>i\<close>.
\<close>

function SendRequest_loop ::
  "nat \<Rightarrow> bool \<Rightarrow> bool \<Rightarrow> (nat \<Rightarrow> attempt) \<Rightarrow> nat \<Rightarrow> request_error option \<times> nat" where
  "SendRequest_loop RETRY_COUNTER refreshed CheckStatus client_Do i =
     (if i \<le> RETRY_COUNTER then
        (case client_Do i of
           TransportError \<Rightarrow> SendRequest_loop RETRY_COUNTER refreshed CheckStatus client_Do (Suc i)
         | Response StatusCode json_err \<Rightarrow>
             if json_err \<and> i = RETRY_COUNTER then (Some JsonError, i)
             else if refreshed then
               SendRequest_loop RETRY_COUNTER refreshed CheckStatus client_Do (Suc i)
             else if \<not> CheckStatus then (None, i)
             else if StatusCode = 200 then (None, i)
             else SendRequest_loop RETRY_COUNTER refreshed CheckStatus client_Do (Suc i))
      else (Some RetriesExhausted, i - 1))"
  by pat_completeness auto
termination
  by (relation "measure (\<lambda>(rc, r, c, d, i). Suc rc - i)") auto

declare SendRequest_loop.simps [simp del]

text \<open>
  \<^verbatim>\<open>SendRequest\<close>: building the request may fail, then the token is refreshed if
  required, then the retry loop runs. The result is the pair of the loop together with the
  token state. \<^verbatim>\<open>reqArgs.ValidateArgs()\<close> is not among the sources and is taken to
  return.
\<close>

definition SendRequest ::
  "nat \<Rightarrow> bool \<Rightarrow> int \<Rightarrow> int \<Rightarrow> oauth_reply \<Rightarrow> accessTokenInfo \<Rightarrow> bool \<Rightarrow> (nat \<Rightarrow> attempt)
     \<Rightarrow> (request_error option \<times> nat) \<times> accessTokenInfo" where
  "SendRequest RETRY_COUNTER new_request_ok now now' reply tok CheckStatus client_Do =
     (if \<not> new_request_ok then ((Some NewRequestError, 0), tok)
      else (case RefreshTokenIfReq now now' reply tok of
              (refreshed, Some err, tok') \<Rightarrow> ((Some err, 0), tok')
            | (refreshed, None, tok') \<Rightarrow>
                (SendRequest_loop RETRY_COUNTER refreshed CheckStatus client_Do 1, tok')))"

subsection \<open>Concurrent callers of the token check\<close>

text \<open>
  Several goroutines run \<^verbatim>\<open>RefreshTokenIfReq\<close> on one \<^verbatim>\<open>PixivMobile\<close>. Each caller is
  at one of four places: before the test of the token (\<open>AtCheck\<close>), before
  \<^verbatim>\<open>accessTokenMu.Lock()\<close> (\<open>AtLock\<close>), inside \<^verbatim>\<open>RefreshAccessToken\<close> holding the mutex
  (\<open>InRefresh\<close>), or returned with the flag \<^verbatim>\<open>refreshed\<close>. The shared state is the token,
  the mutex, and a counter of the refresh calls sent to the token endpoint. The test reads
  the token without the mutex, as the source does. A step is one caller moving on; the
  clock and the endpoint's answer at that step are arbitrary.
\<close>

datatype caller = AtCheck | AtLock | InRefresh | Returned bool

record manager =
  accessTokenMap :: accessTokenInfo
  accessTokenMu :: bool
  refresh_calls :: nat
  callers :: "caller multiset"

inductive caller_step :: "manager \<Rightarrow> manager \<Rightarrow> bool" where
  check_valid:
    "callers m = add_mset AtCheck P \<Longrightarrow> token_valid (accessTokenMap m) now
       \<Longrightarrow> caller_step m (m\<lparr>callers := add_mset (Returned False) P\<rparr>)"
| check_expired:
    "callers m = add_mset AtCheck P \<Longrightarrow> \<not> token_valid (accessTokenMap m) now
       \<Longrightarrow> caller_step m (m\<lparr>callers := add_mset AtLock P\<rparr>)"
| lock:
    "callers m = add_mset AtLock P \<Longrightarrow> \<not> accessTokenMu m
       \<Longrightarrow> caller_step m (m\<lparr>accessTokenMu := True, callers := add_mset InRefresh P\<rparr>)"
| refresh:
    "callers m = add_mset InRefresh P
       \<Longrightarrow> RefreshAccessToken now reply (accessTokenMap m) = (err, tok')
       \<Longrightarrow> caller_step m (m\<lparr>accessTokenMap := tok', accessTokenMu := False,
                               refresh_calls := Suc (refresh_calls m),
                               callers := add_mset (Returned True) P\<rparr>)"

definition manager_init :: "accessTokenInfo \<Rightarrow> nat \<Rightarrow> manager" where
  "manager_init tok n =
     \<lparr> accessTokenMap = tok, accessTokenMu = False, refresh_calls = 0,
       callers = replicate_mset n AtCheck \<rparr>"

definition manager_inv :: "nat \<Rightarrow> manager \<Rightarrow> bool" where
  "manager_inv n m =
     (count (callers m) InRefresh = (if accessTokenMu m then 1 else 0)
      \<and> refresh_calls m = count (callers m) (Returned True)
      \<and> size (callers m) = n)"

text \<open>
  The state in which all \<open>n\<close> callers have made the test, found the token expired and
  not yet refreshed; the states in which every caller has returned; and the invariant of
  the runs from the former.
\<close>

definition all_at_lock :: "accessTokenInfo \<Rightarrow> nat \<Rightarrow> manager" where
  "all_at_lock tok n =
     \<lparr> accessTokenMap = tok, accessTokenMu = False, refresh_calls = 0,
       callers = replicate_mset n AtLock \<rparr>"

definition all_returned :: "manager \<Rightarrow> bool" where
  "all_returned m =
     (count (callers m) AtCheck = 0 \<and> count (callers m) AtLock = 0
      \<and> count (callers m) InRefresh = 0)"

definition past_check_inv :: "nat \<Rightarrow> manager \<Rightarrow> bool" where
  "past_check_inv n m =
     (count (callers m) AtCheck = 0 \<and> count (callers m) (Returned False) = 0
      \<and> refresh_calls m = count (callers m) (Returned True)
      \<and> size (callers m) = n)"

text \<open>
  The refresh calls made so far together with those that callers past the test still owe.
\<close>

definition refreshes_due :: "manager \<Rightarrow> nat" where
  "refreshes_due m =
     refresh_calls m + count (callers m) AtLock + count (callers m) InRefresh"

section \<open>Paginated listings\<close>

subsection \<open>Pixiv mobile client: posts of an illustrator\<close>

text \<open>
  The loop of \<^verbatim>\<open>GetIllustratorPosts\<close> of the mobile client (the label \<^verbatim>\<open>startLoop\<close>
  and the \<^verbatim>\<open>for nextUrl != ""\<close> below it). The server is a script: the list of what it
  answers to the successive requests, each either a failure of \<^verbatim>\<open>SendRequest\<close> or a page
  with its entries and its \<^verbatim>\<open>next_url\<close>. A loop that wants another answer when the script
  is used up is \<open>Starved\<close>.

  A request is recorded with its URL and the values of \<^verbatim>\<open>params["type"]\<close> and
  \<^verbatim>\<open>params["offset"]\<close> when it is sent. Offsets are Go \<^verbatim>\<open>int\<close>s; they grow by 30 per
  request and stay far from the ends of the range, so they are modelled as integers.
\<close>

datatype page_reply = RequestError | PageJson "artwork list" "string option"

datatype loop_end = Done | Failed | Starved

record request =
  req_url :: string
  req_type :: string
  req_offset :: int

record listing_pass =
  ended :: loop_end
  requests :: "request list"
  collected :: "artwork list"
  params_offset :: int
  unread :: "page_reply list"

text \<open>
  \<^verbatim>\<open>models.PixivMobileArtworksJson\<close>, the structure \<^verbatim>\<open>resJson\<close> the loop declares
  afresh in every iteration and reads after \<^verbatim>\<open>SendRequest\<close>: \<open>Illusts\<close> stands for the
  entries \<^verbatim>\<open>ProcessMultipleArtworkJson\<close> makes of the field of that name, \<open>NextUrl\<close> is
  \<open>None\<close> for \<^verbatim>\<open>nil\<close>. \<open>zero_ArtworksJson\<close> is its zero value.
\<close>

record PixivMobileArtworksJson =
  Illusts :: "artwork list"
  NextUrl :: "string option"

definition zero_ArtworksJson :: PixivMobileArtworksJson where
  "zero_ArtworksJson = \<lparr> Illusts = [], NextUrl = None \<rparr>"

text \<open>
  What a call \<^verbatim>\<open>SendRequest(reqArgs, &resJson)\<close> leaves in the caller's structure, and
  whether it returned \<^verbatim>\<open>nil\<close>. In its retry loop \<^verbatim>\<open>SendRequest\<close> assigns \<^verbatim>\<open>nil\<close> to its
  own parameter \<^verbatim>\<open>jsonFormat\<close> and then decodes the body into the address of that
  parameter, so the pointer the caller passed is lost before anything is decoded: whatever
  page the server sent, the caller's structure is left as it was.
\<close>

definition SendRequest_into ::
  "page_reply \<Rightarrow> PixivMobileArtworksJson \<Rightarrow> bool \<times> PixivMobileArtworksJson" where
  "SendRequest_into reply jsonFormat =
     (case reply of
        RequestError \<Rightarrow> (False, jsonFormat)
      | PageJson illusts next_url \<Rightarrow> (True, jsonFormat))"

definition ProcessMultipleArtworkJson :: "PixivMobileArtworksJson \<Rightarrow> artwork list" where
  "ProcessMultipleArtworkJson resJson = Illusts resJson"

text \<open>
  The arguments \<open>minOffset\<close>, \<open>maxOffset\<close> and \<open>hasMax\<close> below are the results of
  \<^verbatim>\<open>utils.GetMinMaxFromStr\<close> and \<^verbatim>\<open>ConvertPageNumToOffset\<close>, neither of which is among
  the sources. \<open>curOffset\<close> is the local variable of that name, \<open>paramsOffset\<close> the entry
  \<^verbatim>\<open>params["offset"]\<close>.
\<close>

fun listing_loop ::
  "bool \<Rightarrow> int \<Rightarrow> string \<Rightarrow> string \<Rightarrow> int \<Rightarrow> int \<Rightarrow> page_reply list \<Rightarrow> listing_pass" where
  "listing_loop hasMax maxOffset artworkType nextUrl curOffset paramsOffset [] =
     \<lparr> ended = (if nextUrl = [] then Done else Starved), requests = [], collected = [],
       params_offset = paramsOffset, unread = [] \<rparr>"
| "listing_loop hasMax maxOffset artworkType nextUrl curOffset paramsOffset (reply # replies) =
     (if nextUrl = [] then
        \<lparr> ended = Done, requests = [], collected = [], params_offset = paramsOffset,
          unread = reply # replies \<rparr>
      else
        (let sent = \<lparr> req_url = nextUrl, req_type = artworkType, req_offset = paramsOffset \<rparr>;
             returned_nil = fst (SendRequest_into reply zero_ArtworksJson);
             resJson = snd (SendRequest_into reply zero_ArtworksJson)
         in if \<not> returned_nil then
              \<lparr> ended = Failed, requests = [sent], collected = [], params_offset = paramsOffset,
                unread = replies \<rparr>
            else
              (let curOffset' = curOffset + 30;
                   nextUrl' = (case NextUrl resJson of
                                 None \<Rightarrow> []
                               | Some next \<Rightarrow>
                                   if hasMax \<and> curOffset' \<ge> maxOffset then [] else next);
                   more = listing_loop hasMax maxOffset artworkType nextUrl' curOffset' curOffset'
                            replies
               in more\<lparr> requests := sent # requests more,
                        collected := ProcessMultipleArtworkJson resJson @ collected more \<rparr>)))"

text \<open>
  The listing part of \<^verbatim>\<open>GetIllustratorPosts\<close>: one pass, and for the artwork type
  \<^verbatim>\<open>"all"\<close> a second pass for \<^verbatim>\<open>"manga"\<close> after the jump back to \<^verbatim>\<open>startLoop\<close>. The jump
  sets \<^verbatim>\<open>curOffset\<close> to \<open>minOffset\<close> again and leaves \<^verbatim>\<open>params["offset"]\<close> as the first
  pass left it.
\<close>

definition GetIllustratorPosts_listing ::
  "string \<Rightarrow> bool \<Rightarrow> int \<Rightarrow> int \<Rightarrow> string \<Rightarrow> page_reply list \<Rightarrow> listing_pass" where
  "GetIllustratorPosts_listing baseUrl hasMax minOffset maxOffset artworkType replies =
     (let paramsType = (if artworkType = ''all'' then ''illust'' else artworkType);
          first = listing_loop hasMax maxOffset paramsType (baseUrl @ ''/v1/user/illusts'')
                    minOffset minOffset replies
      in if ended first \<noteq> Done then first
         else if paramsType = ''illust'' \<and> artworkType = ''all'' then
           (let second = listing_loop hasMax maxOffset ''manga'' (baseUrl @ ''/v1/user/illusts'')
                           minOffset (params_offset first) (unread first)
            in second\<lparr> requests := requests first @ requests second,
                       collected := collected first @ collected second \<rparr>)
         else first)"

text \<open>
  \<^verbatim>\<open>GetIllustratorPosts\<close>: the listing, then \<^verbatim>\<open>CheckForUgoira\<close> on what it collected. A
  failed request makes it return the error and nothing else.
\<close>

definition GetIllustratorPosts ::
  "(string \<Rightarrow> nat \<Rightarrow> UgoiraJson) \<Rightarrow> nat \<Rightarrow> string \<Rightarrow> bool \<Rightarrow> int \<Rightarrow> int \<Rightarrow> string
     \<Rightarrow> page_reply list \<Rightarrow> loop_end + artwork list \<times> Ugoira list \<times> nat" where
  "GetIllustratorPosts net calls baseUrl hasMax minOffset maxOffset artworkType replies =
     (let listing = GetIllustratorPosts_listing baseUrl hasMax minOffset maxOffset artworkType
                      replies
      in if ended listing = Done then Inr (CheckForUgoira net calls (collected listing))
         else Inl (ended listing))"

subsection \<open>Pixiv web client: tag search\<close>

text \<open>
  The loop of \<^verbatim>\<open>tagSearch\<close> of the web client, \<^verbatim>\<open>page := 0; for { page++ ... }\<close>. The
  server is again a script of answers, one per request: the request fails, the body does not
  decode, or the page decodes to a list of artwork ids. \<open>minPage\<close>, \<open>maxPage\<close> and
  \<open>hasMax\<close> are the results of \<^verbatim>\<open>utils.GetMinMaxFromStr\<close>. The result records the pages
  requested, the ids collected and the pages whose error went to \<^verbatim>\<open>errSlice\<close>.
\<close>

datatype tag_reply = TagRequestError | TagJsonError | TagIds "string list"

record tag_pass =
  tag_ended :: loop_end
  pages :: "int list"
  artworkIds :: "string list"
  errSlice :: "int list"

function tagSearch_loop :: "int \<Rightarrow> int \<Rightarrow> bool \<Rightarrow> int \<Rightarrow> tag_reply list \<Rightarrow> tag_pass" where
  "tagSearch_loop minPage maxPage hasMax page replies =
     (let page' = page + 1 in
      if page' < minPage then tagSearch_loop minPage maxPage hasMax page' replies
      else if hasMax \<and> page' > maxPage then
        \<lparr> tag_ended = Done, pages = [], artworkIds = [], errSlice = [] \<rparr>
      else
        (case replies of
           [] \<Rightarrow> \<lparr> tag_ended = Starved, pages = [], artworkIds = [], errSlice = [] \<rparr>
         | reply # rest \<Rightarrow>
             (case reply of
                TagRequestError \<Rightarrow>
                  (let more = tagSearch_loop minPage maxPage hasMax page' rest
                   in more\<lparr> pages := page' # pages more, errSlice := page' # errSlice more \<rparr>)
              | TagJsonError \<Rightarrow>
                  (let more = tagSearch_loop minPage maxPage hasMax page' rest
                   in more\<lparr> pages := page' # pages more, errSlice := page' # errSlice more \<rparr>)
              | TagIds tagArtworkIds \<Rightarrow>
                  if tagArtworkIds = [] then
                    \<lparr> tag_ended = Done, pages = [page'], artworkIds = [], errSlice = [] \<rparr>
                  else
                    (let more = tagSearch_loop minPage maxPage hasMax page' rest
                     in more\<lparr> pages := page' # pages more,
                              artworkIds := tagArtworkIds @ artworkIds more \<rparr>))))"
  by pat_completeness auto
termination
  by (relation "measure (\<lambda>(minPage, maxPage, hasMax, page, replies).
        nat (minPage - page) + length replies)") auto

declare tagSearch_loop.simps [simp del]

section \<open>Pixiv Fanbox: batches of concurrent requests\<close>


datatype fetch_error = RequestFailed | BadStatus int

text \<open>
  What \<^verbatim>\<open>utils.LogError\<close> writes to the log file: the error with the additional
  information, the error alone, or the message alone.
\<close>

datatype log_entry = ErrorWithInfo fetch_error string | ErrorOnly fetch_error | MessageOnly string

type_synonym job = "nat \<times> string"

record pool =
  pending :: "job list"
  queue :: "job multiset"
  resChan :: "(nat \<times> int) list"
  errChan :: "(nat \<times> fetch_error) list"
  log_file :: "(nat \<times> log_entry) list"
  console :: "nat list"


text \<open>
  A step of the batch: the main goroutine admits the next job when a slot is free, or any
  one of the running goroutines finishes, in whatever order the scheduler picks.
\<close>

inductive pool_step :: "nat \<Rightarrow> (job \<Rightarrow> pool \<Rightarrow> pool) \<Rightarrow> pool \<Rightarrow> pool \<Rightarrow> bool"
  for maxConcurrency :: nat and worker :: "job \<Rightarrow> pool \<Rightarrow> pool" where
  admit:
    "pending p = j # rest \<Longrightarrow> size (queue p) < maxConcurrency
       \<Longrightarrow> pool_step maxConcurrency worker p (p\<lparr>pending := rest, queue := add_mset j (queue p)\<rparr>)"
| finish:
    "queue p = add_mset j Q
       \<Longrightarrow> pool_step maxConcurrency worker p ((worker j p)\<lparr>queue := Q\<rparr>)"

definition pool_done :: "pool \<Rightarrow> bool" where
  "pool_done p = (pending p = [] \<and> queue p = {#})"







text \<open>The jobs that have an outcome, and all jobs the state accounts for.\<close>

definition outcomes :: "pool \<Rightarrow> nat multiset" where
  "outcomes p =
     mset (map fst (resChan p)) + mset (map fst (errChan p)) + mset (map fst (log_file p))
       + mset (console p)"


definition one_outcome :: "(job \<Rightarrow> pool \<Rightarrow> pool) \<Rightarrow> bool" where
  "one_outcome worker =
     (\<forall>j p. pending (worker j p) = pending p \<and> queue (worker j p) = queue p
        \<and> outcomes (worker j p) = add_mset (fst j) (outcomes p))"

section \<open>Cookie files\<close>

text \<open>
  The site constants \<^verbatim>\<open>FANTIA\<close>, \<^verbatim>\<open>PIXIV_FANBOX\<close>, \<^verbatim>\<open>PIXIV\<close> and \<^verbatim>\<open>KEMONO\<close> are
  strings declared outside the sources. A site is one of the four, or any other string, for
  which \<^verbatim>\<open>GetSessionCookieInfo\<close> panics: the value \<open>None\<close>.
\<close>

datatype site = FANTIA | PIXIV_FANBOX | PIXIV | KEMONO | OtherSite string

datatype SameSite = SameSiteDefaultMode | SameSiteLaxMode | SameSiteStrictMode | SameSiteNoneMode

record cookieInfo =
  info_Domain :: string
  info_Name :: string
  info_SameSite :: SameSite

fun GetSessionCookieInfo :: "site \<Rightarrow> cookieInfo option" where
  "GetSessionCookieInfo FANTIA =
     Some \<lparr> info_Domain = ''fantia.jp'', info_Name = ''_session_id'',
            info_SameSite = SameSiteLaxMode \<rparr>"
| "GetSessionCookieInfo PIXIV_FANBOX =
     Some \<lparr> info_Domain = ''.fanbox.cc'', info_Name = ''FANBOXSESSID'',
            info_SameSite = SameSiteNoneMode \<rparr>"
| "GetSessionCookieInfo PIXIV =
     Some \<lparr> info_Domain = ''.pixiv.net'', info_Name = ''PHPSESSID'',
            info_SameSite = SameSiteNoneMode \<rparr>"
| "GetSessionCookieInfo KEMONO =
     Some \<lparr> info_Domain = ''kemono.party'', info_Name = ''session'',
            info_SameSite = SameSiteNoneMode \<rparr>"
| "GetSessionCookieInfo (OtherSite s) = None"

text \<open>
  \<^verbatim>\<open>http.Cookie\<close>, with the fields the parsers set. \<open>CookieExpires\<close> is \<open>None\<close> for the
  zero time and otherwise the Unix time in seconds.
\<close>

record Cookie =
  CookieName :: string
  CookieValue :: string
  CookieDomain :: string
  CookiePath :: string
  CookieSecure :: bool
  CookieHttpOnly :: bool
  CookieSameSite :: SameSite
  CookieExpires :: "int option"

text \<open>
  An element of \<^verbatim>\<open>ExportedCookies\<close>. \<open>json_expirationDate\<close> stands for
  \<^verbatim>\<open>int64(cookie.Expire)\<close>, the only use of that floating-point field.
\<close>

record ExportedCookie =
  json_domain :: string
  json_expirationDate :: int
  json_httpOnly :: bool
  json_name :: string
  json_path :: string
  json_secure :: bool
  json_value :: string
  json_session :: bool

record cookieInfoArgs =
  args_name :: string
  args_sameSite :: SameSite

text \<open>
  An open file, as the two parsers see it: the lines \<^verbatim>\<open>ReadLine\<close> returns before
  \<^verbatim>\<open>io.EOF\<close>, where a read may also fail with another error, and what the JSON decoder
  makes of the content (\<open>None\<close> when it does not decode).
\<close>

datatype line_read = Line string | ReadError

record cookie_file =
  file_lines :: "line_read list"
  file_json :: "ExportedCookie list option"

datatype cookie_error = INPUT_ERROR | OS_ERROR | JSON_ERROR

datatype parse_result = Panic | Err cookie_error | Cookies "Cookie list"

text \<open>
  The library functions the parsers call, on byte strings. \<^verbatim>\<open>strings.TrimSpace\<close> is
  modelled for the ASCII white space characters. \<^verbatim>\<open>strconv.Atoi\<close>: an optional sign, at
  least one decimal digit, nothing else, and a value within 64 bits. \<^verbatim>\<open>filepath.Ext\<close>:
  the suffix from the last dot of the last path element, with \<open>/\<close> as the separator.
\<close>

definition is_space :: "char \<Rightarrow> bool" where
  "is_space c = (c \<in> set [CHR '' '', CHR 0x09, CHR 0x0A, CHR 0x0B, CHR 0x0C, CHR 0x0D])"

definition TrimSpace :: "string \<Rightarrow> string" where
  "TrimSpace s = rev (dropWhile is_space (rev (dropWhile is_space s)))"

fun Split_loop :: "char \<Rightarrow> string \<Rightarrow> string \<Rightarrow> string list" where
  "Split_loop sep [] field = [rev field]"
| "Split_loop sep (c # cs) field =
     (if c = sep then rev field # Split_loop sep cs [] else Split_loop sep cs (c # field))"

definition Split :: "string \<Rightarrow> char \<Rightarrow> string list" where
  "Split s sep = Split_loop sep s []"

definition HasPrefix :: "string \<Rightarrow> string \<Rightarrow> bool" where
  "HasPrefix s prefix = (take (length prefix) s = prefix)"

definition digit_val :: "char \<Rightarrow> int" where
  "digit_val c = int (of_char c) - 48"

definition is_digit :: "char \<Rightarrow> bool" where
  "is_digit c = (48 \<le> (of_char c :: nat) \<and> (of_char c :: nat) \<le> 57)"

definition digits_val :: "string \<Rightarrow> int" where
  "digits_val ds = foldl (\<lambda>n c. 10 * n + digit_val c) 0 ds"

definition Atoi :: "string \<Rightarrow> int option" where
  "Atoi s =
     (let neg = (s \<noteq> [] \<and> hd s = CHR ''-'');
          ds = (if s \<noteq> [] \<and> (hd s = CHR ''-'' \<or> hd s = CHR ''+'') then tl s else s);
          n = (if neg then - digits_val ds else digits_val ds)
      in if ds = [] \<or> \<not> list_all is_digit ds then None
         else if n < - (2 ^ 63) \<or> 2 ^ 63 \<le> n then None
         else Some n)"

fun Ext_scan :: "string \<Rightarrow> string \<Rightarrow> string" where
  "Ext_scan [] suffix = []"
| "Ext_scan (c # cs) suffix =
     (if c = CHR ''/'' then []
      else if c = CHR ''.'' then c # suffix
      else Ext_scan cs (c # suffix))"

definition Ext :: "string \<Rightarrow> string" where
  "Ext path = Ext_scan (rev path) []"

text \<open>
  The body of the loop of \<^verbatim>\<open>parseTxtCookieFile\<close> for one line: \<open>None\<close> where the source
  says \<^verbatim>\<open>continue\<close>, otherwise the cookie it appends. The slice \<open>cookieInfos\<close> is only
  indexed below 7, after its length was checked.
\<close>

definition parseTxtCookieLine :: "string \<Rightarrow> cookieInfoArgs \<Rightarrow> Cookie option" where
  "parseTxtCookieLine lineBytes cookieArgs =
     (let line = TrimSpace lineBytes in
      if line = [] \<or> HasPrefix line ''#'' then None
      else
        (let cookieInfos = Split line (CHR 0x09) in
         if length cookieInfos < 7 then None
         else
           (let cookieName = cookieInfos ! 5 in
            if cookieName \<noteq> args_name cookieArgs then None
            else
              (let cookie = \<lparr> CookieName = cookieName, CookieValue = cookieInfos ! 6,
                              CookieDomain = cookieInfos ! 0, CookiePath = cookieInfos ! 2,
                              CookieSecure = (cookieInfos ! 3 = ''TRUE''), CookieHttpOnly = True,
                              CookieSameSite = args_sameSite cookieArgs, CookieExpires = None \<rparr>;
                   expiresUnixStr = cookieInfos ! 4
               in if expiresUnixStr \<noteq> [] then
                    (case Atoi expiresUnixStr of
                       None \<Rightarrow> None
                     | Some expiresUnixInt \<Rightarrow>
                         if expiresUnixInt > 0
                         then Some (cookie\<lparr>CookieExpires := Some expiresUnixInt\<rparr>)
                         else Some cookie)
                  else Some cookie))))"

fun parseTxtCookieFile_loop ::
  "line_read list \<Rightarrow> cookieInfoArgs \<Rightarrow> Cookie list \<Rightarrow> cookie_error + Cookie list" where
  "parseTxtCookieFile_loop [] cookieArgs cookies = Inr cookies"
| "parseTxtCookieFile_loop (ReadError # rest) cookieArgs cookies = Inl OS_ERROR"
| "parseTxtCookieFile_loop (Line lineBytes # rest) cookieArgs cookies =
     (case parseTxtCookieLine lineBytes cookieArgs of
        None \<Rightarrow> parseTxtCookieFile_loop rest cookieArgs cookies
      | Some cookie \<Rightarrow> parseTxtCookieFile_loop rest cookieArgs (cookies @ [cookie]))"

definition parseTxtCookieFile :: "cookie_file \<Rightarrow> cookieInfoArgs \<Rightarrow> cookie_error + Cookie list" where
  "parseTxtCookieFile f cookieArgs = parseTxtCookieFile_loop (file_lines f) cookieArgs []"

text \<open>The body of the loop of \<^verbatim>\<open>parseJsonCookieFile\<close> for one exported cookie.\<close>

definition parseJsonCookie :: "ExportedCookie \<Rightarrow> cookieInfoArgs \<Rightarrow> Cookie option" where
  "parseJsonCookie cookie cookieArgs =
     (if json_name cookie \<noteq> args_name cookieArgs then None
      else
        (let parsedCookie = \<lparr> CookieName = json_name cookie, CookieValue = json_value cookie,
                               CookieDomain = json_domain cookie, CookiePath = json_path cookie,
                               CookieSecure = json_secure cookie,
                               CookieHttpOnly = json_httpOnly cookie,
                               CookieSameSite = args_sameSite cookieArgs, CookieExpires = None \<rparr>
         in if \<not> json_session cookie
            then Some (parsedCookie\<lparr>CookieExpires := Some (json_expirationDate cookie)\<rparr>)
            else Some parsedCookie))"

fun parseJsonCookieFile_loop ::
  "ExportedCookie list \<Rightarrow> cookieInfoArgs \<Rightarrow> Cookie list \<Rightarrow> Cookie list" where
  "parseJsonCookieFile_loop [] cookieArgs cookies = cookies"
| "parseJsonCookieFile_loop (cookie # rest) cookieArgs cookies =
     (case parseJsonCookie cookie cookieArgs of
        None \<Rightarrow> parseJsonCookieFile_loop rest cookieArgs cookies
      | Some parsedCookie \<Rightarrow> parseJsonCookieFile_loop rest cookieArgs (cookies @ [parsedCookie]))"

definition parseJsonCookieFile :: "cookie_file \<Rightarrow> cookieInfoArgs \<Rightarrow> cookie_error + Cookie list" where
  "parseJsonCookieFile f cookieArgs =
     (case file_json f of
        None \<Rightarrow> Inl JSON_ERROR
      | Some exportedCookies \<Rightarrow> Inr (parseJsonCookieFile_loop exportedCookies cookieArgs []))"

text \<open>
  \<^verbatim>\<open>ParseNetscapeCookieFile\<close>. \<open>os_Open\<close> is the file system: \<open>None\<close> where
  \<^verbatim>\<open>os.Open\<close> fails.
\<close>

definition ParseNetscapeCookieFile ::
  "(string \<Rightarrow> cookie_file option) \<Rightarrow> string \<Rightarrow> string \<Rightarrow> site \<Rightarrow> parse_result" where
  "ParseNetscapeCookieFile os_Open filePath sessionId website =
     (if filePath \<noteq> [] \<and> sessionId \<noteq> [] then Err INPUT_ERROR
      else
        (case GetSessionCookieInfo website of
           None \<Rightarrow> Panic
         | Some sessionCookieInfo \<Rightarrow>
             (case os_Open filePath of
                None \<Rightarrow> Err OS_ERROR
              | Some f \<Rightarrow>
                  (let cookieArgs = \<lparr> args_name = info_Name sessionCookieInfo,
                                       args_sameSite = info_SameSite sessionCookieInfo \<rparr>;
                       ext = Ext filePath;
                       parsed = (if ext = ''.txt'' then parseTxtCookieFile f cookieArgs
                                 else if ext = ''.json'' then parseJsonCookieFile f cookieArgs
                                 else Inl INPUT_ERROR)
                   in case parsed of
                        Inl err \<Rightarrow> Err err
                      | Inr cookies \<Rightarrow>
                          if length cookies = 0 then Err INPUT_ERROR else Cookies cookies))))"

text \<open>
  A cookie file in the Netscape text format with a comment, a cookie of another name and
  the session cookie of Fantia.
\<close>

definition example_cookie_file :: cookie_file where
  "example_cookie_file =
     \<lparr> file_lines =
         [Line ''# Netscape HTTP Cookie File'',
          Line [],
          Line (''fantia.jp'' @ [CHR 0x09] @ ''FALSE'' @ [CHR 0x09] @ ''/'' @ [CHR 0x09] @ ''TRUE''
                @ [CHR 0x09] @ ''0'' @ [CHR 0x09] @ ''lang'' @ [CHR 0x09] @ ''ja''),
          Line (''fantia.jp'' @ [CHR 0x09] @ ''FALSE'' @ [CHR 0x09] @ ''/'' @ [CHR 0x09] @ ''TRUE''
                @ [CHR 0x09] @ ''1700000000'' @ [CHR 0x09] @ ''_session_id'' @ [CHR 0x09]
                @ ''abc'')],
       file_json = None \<rparr>"

section \<open>Download jobs\<close>

text \<open>
  The sources call \<^verbatim>\<open>request.DownloadUrls\<close> but do not contain it, so the download job
  is modelled from the specification (its section 4.6). Storage maps a path to the bytes
  of the file there. A transport delivers the chunks of the response body in order and then
  either ends the body or fails.
\<close>

type_synonym storage = "string \<rightharpoonup> string"

datatype transport = Transport "string list" bool

text \<open>
  Modelled from the spec: the streaming of a response body to storage, which is part of the
  missing \<^verbatim>\<open>request\<close> package. Each chunk is appended to the file at the path as it
  arrives, rather than buffered.
\<close>

fun stream_to :: "string \<Rightarrow> string list \<Rightarrow> storage \<Rightarrow> storage" where
  "stream_to path [] files = files"
| "stream_to path (chunk # chunks) files =
     stream_to path chunks
       (files(path \<mapsto> (case files path of None \<Rightarrow> chunk | Some written \<Rightarrow> written @ chunk)))"

text \<open>
  Modelled from the spec: the execution of a download job, which is part of the missing
  \<^verbatim>\<open>request\<close> package. Partial writes go to a temporary path; the file is promoted to
  the final destination only on full success; after a failure the temporary file is removed
  or left unpromoted (the flag \<open>remove_partial\<close>). The result is the storage afterwards
  and whether the job succeeded.
\<close>

fun download_job ::
  "bool \<Rightarrow> string \<Rightarrow> string \<Rightarrow> transport \<Rightarrow> storage \<Rightarrow> storage \<times> bool" where
  "download_job remove_partial temporary destination (Transport chunks completes) files =
     (let partial = stream_to temporary chunks (files(temporary \<mapsto> [])) in
      if completes then ((partial(destination := partial temporary))(temporary := None), True)
      else (if remove_partial then partial(temporary := None) else partial, False))"

section \<open>Properties\<close>

subsection \<open>Ugoira detection partitions its input\<close>

lemma CheckForUgoira_loop_eq:
  "CheckForUgoira_loop net as fs us n =
     (fs @ filter (\<lambda>a. \<not> has_artwork_id a) as,
      us @ ugoira_of net n (filter has_artwork_id as),
      n + length (filter has_artwork_id as))"
  by (induction as arbitrary: fs us n) (simp_all add: has_artwork_id_def Let_def)

lemma length_ugoira_of: "length (ugoira_of net n as) = length as"
  by (induction as arbitrary: n) simp_all

lemma FilePath_ugoira_of:
  "map FilePath (ugoira_of net n as) = map (\<lambda>a. go_lookup a ''filepath'') as"
  by (induction as arbitrary: n) (simp_all add: GetUgoiraMetadata_def)

text \<open>
  Claim C10. \<^verbatim>\<open>CheckForUgoira\<close> partitions its input slice. The filtered slice is the
  sub-sequence of the entries without the key \<^verbatim>\<open>artwork_id\<close>, unchanged and in input
  order. The ugoira slice has one entry per entry with the key, in input order: the
  \<open>k\<close>-th is the result of the \<open>k\<close>-th metadata call, made for that entry's id and
  file path. The two lengths add up to the length of the input.
\<close>

theorem CheckForUgoira_partition:
  "fst (CheckForUgoira net n as) = filter (\<lambda>a. \<not> has_artwork_id a) as
   \<and> fst (snd (CheckForUgoira net n as)) = ugoira_of net n (filter has_artwork_id as)
   \<and> length (fst (snd (CheckForUgoira net n as))) = length (filter has_artwork_id as)
   \<and> map FilePath (fst (snd (CheckForUgoira net n as)))
       = map (\<lambda>a. go_lookup a ''filepath'') (filter has_artwork_id as)
   \<and> length (fst (CheckForUgoira net n as)) + length (fst (snd (CheckForUgoira net n as)))
       = length as"
proof -
  have "length (filter (\<lambda>a. \<not> has_artwork_id a) as) + length (filter has_artwork_id as)
          = length as"
    using sum_length_filter_compl [of has_artwork_id as] by simp
  then show ?thesis
    by (simp add: CheckForUgoira_def CheckForUgoira_loop_eq length_ugoira_of FilePath_ugoira_of)
qed

subsection \<open>Token refresh\<close>

lemma wrap64_id: "- (2 ^ 63) \<le> x \<Longrightarrow> x < 2 ^ 63 \<Longrightarrow> wrap64 x = x"
  by (simp add: wrap64_def)

text \<open>
  Claim C7, as amended. After a successful token refresh the stored access token is the
  token of the refresh response, and the stored expiry is the time of the refresh plus the
  declared TTL minus 15 seconds, provided the TTL minus 15 seconds fits a
  \<^verbatim>\<open>time.Duration\<close>: \<open>- 9223372021 \<le> expires_in \<le> 9223372051\<close>.
\<close>

theorem RefreshAccessToken_stores_token:
  assumes "RefreshAccessToken now reply tok = (None, tok')"
  shows "\<exists>oauthJson. reply = Reply 200 (Some oauthJson)
     \<and> accessToken tok' = AccessToken oauthJson
     \<and> (- 9223372021 \<le> ExpiresIn oauthJson \<and> ExpiresIn oauthJson \<le> 9223372051
          \<longrightarrow> expiresAt tok' = now + (ExpiresIn oauthJson - 15) * Second)"
proof -
  from assms obtain j where r: "reply = Reply 200 (Some j)"
    by (auto simp: RefreshAccessToken_def split: oauth_reply.splits if_splits option.splits)
  have tok': "tok' = \<lparr> accessToken = AccessToken j,
       expiresAt = now + wrap64 (wrap64 (ExpiresIn j - 15) * Second) \<rparr>"
    using assms r by (simp add: RefreshAccessToken_def Let_def)
  have "expiresAt tok' = now + (ExpiresIn j - 15) * Second"
    if "- 9223372021 \<le> ExpiresIn j" "ExpiresIn j \<le> 9223372051"
  proof -
    have a: "wrap64 (ExpiresIn j - 15) = ExpiresIn j - 15"
      using that by (intro wrap64_id) simp_all
    have b: "wrap64 ((ExpiresIn j - 15) * Second) = (ExpiresIn j - 15) * Second"
      using that by (intro wrap64_id) (simp_all add: Second_def)
    show ?thesis by (simp add: tok' a b)
  qed
  then show ?thesis using r tok' by auto
qed

theorem RefreshAccessToken_stores_token_witness:
  "RefreshAccessToken 1000 (Reply 200 (Some \<lparr>AccessToken = ''tok'', ExpiresIn = 3600\<rparr>))
       \<lparr>accessToken = [], expiresAt = 0\<rparr>
     = (None, \<lparr>accessToken = ''tok'', expiresAt = 3585000001000\<rparr>)
   \<and> (- 9223372021 \<le> (3600::int) \<and> (3600::int) \<le> 9223372051)
   \<and> expiresAt \<lparr>accessToken = ''tok'', expiresAt = 3585000001000\<rparr>
       = 1000 + (3600 - 15) * Second"
proof -
  have run: "RefreshAccessToken 1000 (Reply 200 (Some \<lparr>AccessToken = ''tok'', ExpiresIn = 3600\<rparr>))
       \<lparr>accessToken = [], expiresAt = 0\<rparr>
     = (None, \<lparr>accessToken = ''tok'', expiresAt = 3585000001000\<rparr>)"
    by (simp add: RefreshAccessToken_def wrap64_def Second_def Let_def)
  from RefreshAccessToken_stores_token [OF run] show ?thesis
    using run by (simp add: Second_def)
qed

text \<open>
  Claim C7 as stated fails where the multiplication by \<^verbatim>\<open>time.Second\<close> overflows: for
  \<open>expires_in = 9223372052\<close> the refresh succeeds, and the stored expiry lies before the time
  of the refresh instead of \<open>expires_in - 15\<close> seconds after it.
\<close>

theorem RefreshAccessToken_ttl_overflow:
  "fst (RefreshAccessToken 0 (Reply 200 (Some \<lparr>AccessToken = ''tok'', ExpiresIn = 9223372052\<rparr>))
          \<lparr>accessToken = [], expiresAt = 0\<rparr>) = None
   \<and> expiresAt (snd (RefreshAccessToken 0
          (Reply 200 (Some \<lparr>AccessToken = ''tok'', ExpiresIn = 9223372052\<rparr>))
          \<lparr>accessToken = [], expiresAt = 0\<rparr>)) = - 9223372036709551616
   \<and> expiresAt (snd (RefreshAccessToken 0
          (Reply 200 (Some \<lparr>AccessToken = ''tok'', ExpiresIn = 9223372052\<rparr>))
          \<lparr>accessToken = [], expiresAt = 0\<rparr>)) \<noteq> 0 + (9223372052 - 15) * Second"
  by (simp add: RefreshAccessToken_def wrap64_def Second_def Let_def)

subsection \<open>Retries of a request\<close>

lemma SendRequest_loop_no_200:
  assumes "\<not> refreshed" and "CheckStatus" and "0 < i"
    and "\<forall>k json_err. client_Do k \<noteq> Response 200 json_err"
  shows "fst (SendRequest_loop rc refreshed CheckStatus client_Do i) \<noteq> None
     \<and> snd (SendRequest_loop rc refreshed CheckStatus client_Do i) = max rc (i - 1)"
  using assms
proof (induction rc refreshed CheckStatus client_Do i rule: SendRequest_loop.induct)
  case (1 rc refreshed cs d i)
  show ?case
  proof (cases "i \<le> rc")
    case False
    then show ?thesis
      by (subst SendRequest_loop.simps, subst (2) SendRequest_loop.simps) (use 1 in auto)
  next
    case True
    then show ?thesis
      using 1
      by (subst SendRequest_loop.simps, subst (2) SendRequest_loop.simps)
        (auto split: attempt.splits)
  qed
qed

lemma SendRequest_loop_refreshed_200:
  assumes "0 < i"
  shows "SendRequest_loop rc True CheckStatus (\<lambda>k. Response 200 False) i
     = (Some RetriesExhausted, max rc (i - 1))"
  using assms
proof (induction "Suc rc - i" arbitrary: i)
  case 0
  then show ?case by (subst SendRequest_loop.simps) (simp add: max_def)
next
  case (Suc n)
  then have "i \<le> rc" by simp
  moreover have "SendRequest_loop rc True CheckStatus (\<lambda>k. Response 200 False) (Suc i)
     = (Some RetriesExhausted, max rc i)"
    using Suc(1) [of "Suc i"] Suc(2) by simp
  ultimately show ?case
    using Suc.prems by (subst SendRequest_loop.simps) (simp add: max_def)
qed

text \<open>
  Claim C3, as amended. With status checking on and no token refresh, a response whose
  status is not 200 is retried like a transport failure, whatever the status: a 404 as much
  as a 429. When no attempt yields a 200, \<^verbatim>\<open>SendRequest\<close> returns an error after exactly
  \<^verbatim>\<open>RETRY_COUNTER\<close> attempts.
\<close>

theorem SendRequest_non200_retried:
  assumes "new_request_ok" and "token_valid tok now" and "CheckStatus"
    and "\<forall>k json_err. client_Do k \<noteq> Response 200 json_err"
  shows "fst (fst (SendRequest RETRY_COUNTER new_request_ok now now' reply tok CheckStatus client_Do))
           \<noteq> None
     \<and> snd (fst (SendRequest RETRY_COUNTER new_request_ok now now' reply tok CheckStatus client_Do))
           = RETRY_COUNTER"
proof -
  have "fst (SendRequest RETRY_COUNTER new_request_ok now now' reply tok CheckStatus client_Do)
      = SendRequest_loop RETRY_COUNTER False CheckStatus client_Do 1"
    using assms(1,2) by (simp add: SendRequest_def RefreshTokenIfReq_def)
  then show ?thesis
    using SendRequest_loop_no_200 [of False CheckStatus 1 client_Do RETRY_COUNTER] assms(3,4)
    by simp
qed

theorem SendRequest_non200_retried_witness:
  "True \<and> token_valid \<lparr>accessToken = ''tok'', expiresAt = 10\<rparr> 0 \<and> True
   \<and> (\<forall>k json_err. (\<lambda>k. Response 429 False) k \<noteq> Response 200 json_err)
   \<and> fst (fst (SendRequest 5 True 0 0 CallFailed \<lparr>accessToken = ''tok'', expiresAt = 10\<rparr> True
        (\<lambda>k. Response 429 False))) \<noteq> None
   \<and> snd (fst (SendRequest 5 True 0 0 CallFailed \<lparr>accessToken = ''tok'', expiresAt = 10\<rparr> True
        (\<lambda>k. Response 429 False))) = 5"
proof -
  have v: "token_valid \<lparr>accessToken = ''tok'', expiresAt = 10\<rparr> 0"
    by (simp add: token_valid_def)
  have n: "\<forall>k json_err. (\<lambda>k. Response 429 False) k \<noteq> Response 200 json_err"
    by simp
  from SendRequest_non200_retried [OF TrueI v TrueI n, of 5 0 CallFailed] show ?thesis
    using v by simp
qed

text \<open>
  Claim C3 as stated fails: with \<^verbatim>\<open>RETRY_COUNTER\<close> at 5, a valid token and status checking
  on, an endpoint that always answers 404 is asked 5 times, not once, before the error is
  returned.
\<close>

theorem SendRequest_404_retried:
  "fst (SendRequest 5 True 0 0 CallFailed \<lparr>accessToken = ''tok'', expiresAt = 10\<rparr> True
          (\<lambda>k. Response 404 False))
     = (Some RetriesExhausted, 5)
   \<and> snd (fst (SendRequest 5 True 0 0 CallFailed \<lparr>accessToken = ''tok'', expiresAt = 10\<rparr> True
          (\<lambda>k. Response 404 False))) \<noteq> 1"
  by (simp add: SendRequest_def RefreshTokenIfReq_def token_valid_def SendRequest_loop.simps)

text \<open>
  Claim C4 fails on the code. When the token had to be refreshed and the refresh succeeded,
  \<^verbatim>\<open>refreshed\<close> stays true for the whole loop, every attempt that got a response runs into
  \<^verbatim>\<open>continue\<close>, and the loop can only end by exhausting its attempts: with every attempt
  answered by a 200 that decodes, \<^verbatim>\<open>SendRequest\<close> makes \<^verbatim>\<open>RETRY_COUNTER\<close> attempts and
  returns the error of exhausted retries.
\<close>

theorem SendRequest_refreshed_200_fails:
  "fst (SendRequest RETRY_COUNTER True now now' (Reply 200 (Some oauthJson))
          \<lparr>accessToken = [], expiresAt = e\<rparr> CheckStatus (\<lambda>k. Response 200 False))
     = (Some RetriesExhausted, RETRY_COUNTER)"
  using SendRequest_loop_refreshed_200 [of 1 RETRY_COUNTER CheckStatus]
  by (simp add: SendRequest_def RefreshTokenIfReq_def token_valid_def RefreshAccessToken_def
      Let_def)

subsection \<open>Concurrent token checks\<close>

lemma manager_inv_init: "manager_inv n (manager_init tok n)"
  by (simp add: manager_inv_def manager_init_def)

lemma manager_inv_step:
  assumes "caller_step m m'" and "manager_inv n m"
  shows "manager_inv n m'"
  using assms
  by (induction rule: caller_step.induct) (auto simp: manager_inv_def split: if_splits)

lemma manager_inv_reach:
  assumes "rtranclp caller_step (manager_init tok n) m"
  shows "manager_inv n m"
  using assms
  by (induction rule: rtranclp_induct) (auto intro: manager_inv_init manager_inv_step)

text \<open>Every caller is at exactly one of the five places.\<close>

lemma size_by_place:
  "size M = count M AtCheck + count M AtLock + count M InRefresh
      + count M (Returned False) + count M (Returned True)"
proof (induction M)
  case empty
  show ?case by simp
next
  case (add c M)
  then show ?case
  proof (cases c)
    case (Returned b)
    with add show ?thesis by (cases b) simp_all
  qed simp_all
qed

text \<open>
  Once no caller is before the test, none can return without a refresh: a caller at the
  mutex has nowhere to go but into \<^verbatim>\<open>RefreshAccessToken\<close>.
\<close>

lemma past_check_inv_step:
  assumes "caller_step m m'" and "past_check_inv n m"
  shows "past_check_inv n m'"
  using assms
  by (induction rule: caller_step.induct) (auto simp: past_check_inv_def)

lemma past_check_inv_reach:
  assumes "rtranclp caller_step m m'" and "past_check_inv n m"
  shows "past_check_inv n m'"
  using assms by (induction rule: rtranclp_induct) (auto intro: past_check_inv_step)

lemma from_all_at_lock:
  assumes "rtranclp caller_step (all_at_lock tok n) m" and "all_returned m"
  shows "refresh_calls m = n \<and> callers m = replicate_mset n (Returned True)"
proof -
  have "past_check_inv n (all_at_lock tok n)"
    by (simp add: past_check_inv_def all_at_lock_def)
  then have i: "past_check_inv n m" using assms(1) by (rule past_check_inv_reach [rotated])
  have c: "count (callers m) (Returned True) = n"
    using i assms(2) size_by_place [of "callers m"]
    by (simp add: past_check_inv_def all_returned_def)
  then have "refresh_calls m = n" using i by (simp add: past_check_inv_def)
  moreover have "callers m = replicate_mset n (Returned True)"
  proof (rule multiset_eqI)
    fix x
    show "count (callers m) x = count (replicate_mset n (Returned True)) x"
    proof (cases x)
      case (Returned b)
      then show ?thesis using c i by (cases b) (simp_all add: past_check_inv_def)
    qed (use i assms(2) in \<open>simp_all add: past_check_inv_def all_returned_def\<close>)
  qed
  ultimately show ?thesis by simp
qed

text \<open>While the token is expired, the callers before the test all pass it.\<close>

lemma checks_expired:
  assumes "\<not> token_valid (accessTokenMap m) now" and "callers m = replicate_mset k AtCheck + R"
  shows "rtranclp caller_step m (m\<lparr>callers := replicate_mset k AtLock + R\<rparr>)"
  using assms
proof (induction k arbitrary: m R)
  case 0
  then have "m\<lparr>callers := replicate_mset 0 AtLock + R\<rparr> = m" by simp
  then show ?case by simp
next
  case (Suc k)
  let ?m1 = "m\<lparr>callers := add_mset AtLock (replicate_mset k AtCheck + R)\<rparr>"
  have s: "caller_step m ?m1"
    using Suc.prems by (intro check_expired [where now = now]) simp_all
  have "rtranclp caller_step ?m1 (?m1\<lparr>callers := replicate_mset k AtLock + add_mset AtLock R\<rparr>)"
    using Suc.prems by (intro Suc.IH) simp_all
  then have "rtranclp caller_step ?m1 (m\<lparr>callers := replicate_mset (Suc k) AtLock + R\<rparr>)"
    by simp
  then show ?case using s by (rule converse_rtranclp_into_rtranclp [rotated])
qed

lemma all_reach_lock:
  assumes "\<not> token_valid tok now"
  shows "rtranclp caller_step (manager_init tok n) (all_at_lock tok n)"
  using checks_expired [of "manager_init tok n" now n "{#}"] assms
  by (simp add: manager_init_def all_at_lock_def)

text \<open>The callers at the mutex can take it one after the other, each making its call.\<close>

lemma refreshes_in_turn:
  assumes "\<not> accessTokenMu m" and "callers m = replicate_mset k AtLock + R"
  shows "\<exists>m'. rtranclp caller_step m m' \<and> \<not> accessTokenMu m'
     \<and> callers m' = replicate_mset k (Returned True) + R
     \<and> refresh_calls m' = refresh_calls m + k"
  using assms
proof (induction k arbitrary: m R)
  case 0
  then show ?case by auto
next
  case (Suc k)
  let ?P = "replicate_mset k AtLock + R"
  let ?m1 = "m\<lparr>accessTokenMu := True, callers := add_mset InRefresh ?P\<rparr>"
  let ?m2 = "?m1\<lparr>accessTokenMap := accessTokenMap ?m1, accessTokenMu := False,
       refresh_calls := Suc (refresh_calls ?m1), callers := add_mset (Returned True) ?P\<rparr>"
  have s1: "caller_step m ?m1"
    using Suc.prems by (intro lock) simp_all
  have s2: "caller_step ?m1 ?m2"
    by (intro refresh [where now = 0 and reply = CallFailed and err = "Some ConnectionError"])
      (simp_all add: RefreshAccessToken_def)
  have "\<exists>m'. rtranclp caller_step ?m2 m' \<and> \<not> accessTokenMu m'
     \<and> callers m' = replicate_mset k (Returned True) + add_mset (Returned True) R
     \<and> refresh_calls m' = refresh_calls ?m2 + k"
    by (intro Suc.IH) simp_all
  then obtain m' where r: "rtranclp caller_step ?m2 m'" and p: "\<not> accessTokenMu m'"
    "callers m' = replicate_mset k (Returned True) + add_mset (Returned True) R"
    "refresh_calls m' = refresh_calls ?m2 + k" by blast
  have "rtranclp caller_step m m'"
    using s1 s2 r by (meson converse_rtranclp_into_rtranclp)
  then show ?case using p by (intro exI [of _ m']) simp
qed

lemma all_at_lock_completes:
  "\<exists>m. rtranclp caller_step (all_at_lock tok n) m \<and> all_returned m"
proof -
  obtain m where "rtranclp caller_step (all_at_lock tok n) m"
    "callers m = replicate_mset n (Returned True) + {#}"
    using refreshes_in_turn [of "all_at_lock tok n" n "{#}"] by (auto simp: all_at_lock_def)
  then show ?thesis by (auto simp: all_returned_def)
qed

text \<open>No step takes a refresh off what is made and owed.\<close>

lemma refreshes_due_step:
  assumes "caller_step m m'"
  shows "refreshes_due m \<le> refreshes_due m'"
  using assms by (induction rule: caller_step.induct) (auto simp: refreshes_due_def)

lemma refreshes_due_reach:
  assumes "rtranclp caller_step m m'"
  shows "refreshes_due m \<le> refreshes_due m'"
  using assms
  by (induction rule: rtranclp_induct) (auto dest: refreshes_due_step intro: order_trans)

text \<open>
  A run of two callers on an empty token: both test the token before either refreshes, so
  both go on to refresh, one after the other, and both refreshes succeed.
\<close>

lemma two_callers_reach_lock:
  "rtranclp caller_step (manager_init \<lparr>accessToken = [], expiresAt = 0\<rparr> 2)
     (all_at_lock \<lparr>accessToken = [], expiresAt = 0\<rparr> 2)"
proof -
  have "\<not> token_valid \<lparr>accessToken = [], expiresAt = 0\<rparr> 0"
    by (simp add: token_valid_def)
  then show ?thesis by (rule all_reach_lock)
qed

lemma two_callers_from_lock:
  "rtranclp caller_step (all_at_lock \<lparr>accessToken = [], expiresAt = 0\<rparr> 2)
     \<lparr> accessTokenMap = \<lparr>accessToken = ''B'', expiresAt = 3585000000000\<rparr>,
       accessTokenMu = False, refresh_calls = 2,
       callers = {#Returned True, Returned True#} \<rparr>"
proof -
  let ?t0 = "\<lparr>accessToken = [], expiresAt = 0\<rparr>"
  let ?tA = "\<lparr>accessToken = ''A'', expiresAt = 3585000000000\<rparr>"
  let ?tB = "\<lparr>accessToken = ''B'', expiresAt = 3585000000000\<rparr>"
  let ?s2 = "\<lparr> accessTokenMap = ?t0, accessTokenMu = False, refresh_calls = 0,
               callers = {#AtLock, AtLock#} \<rparr>"
  let ?s3 = "\<lparr> accessTokenMap = ?t0, accessTokenMu = True, refresh_calls = 0,
               callers = {#InRefresh, AtLock#} \<rparr>"
  let ?s4 = "\<lparr> accessTokenMap = ?tA, accessTokenMu = False, refresh_calls = 1,
               callers = {#Returned True, AtLock#} \<rparr>"
  let ?s5 = "\<lparr> accessTokenMap = ?tA, accessTokenMu = True, refresh_calls = 1,
               callers = {#InRefresh, Returned True#} \<rparr>"
  let ?s6 = "\<lparr> accessTokenMap = ?tB, accessTokenMu = False, refresh_calls = 2,
               callers = {#Returned True, Returned True#} \<rparr>"
  have i: "all_at_lock ?t0 2 = ?s2"
    by (simp add: all_at_lock_def numeral_2_eq_2)
  have 3: "caller_step ?s2 ?s3"
    using lock [of ?s2 "{#AtLock#}"] by simp
  have 4: "caller_step ?s3 ?s4"
    using refresh [of ?s3 "{#AtLock#}" 0
        "Reply 200 (Some \<lparr>AccessToken = ''A'', ExpiresIn = 3600\<rparr>)" None ?tA]
    by (simp add: RefreshAccessToken_def wrap64_def Second_def Let_def)
  have 5: "caller_step ?s4 ?s5"
    using lock [of ?s4 "{#Returned True#}"] by simp
  have 6: "caller_step ?s5 ?s6"
    using refresh [of ?s5 "{#Returned True#}" 0
        "Reply 200 (Some \<lparr>AccessToken = ''B'', ExpiresIn = 3600\<rparr>)" None ?tB]
    by (simp add: RefreshAccessToken_def wrap64_def Second_def Let_def eval_nat_numeral)
  have "rtranclp caller_step ?s2 ?s6"
    using 3 4 5 6 by (meson rtranclp.rtrancl_into_rtrancl rtranclp.rtrancl_refl)
  then show ?thesis using i by simp
qed

lemma two_callers_run:
  "rtranclp caller_step (manager_init \<lparr>accessToken = [], expiresAt = 0\<rparr> 2)
     \<lparr> accessTokenMap = \<lparr>accessToken = ''B'', expiresAt = 3585000000000\<rparr>,
       accessTokenMu = False, refresh_calls = 2,
       callers = {#Returned True, Returned True#} \<rparr>"
  using two_callers_reach_lock two_callers_from_lock by (rule rtranclp_trans)

text \<open>
  Claim C2, as amended. Refresh calls are serialized by the mutex: at most one caller is
  inside \<^verbatim>\<open>RefreshAccessToken\<close> at any time. The test of the token is made outside the
  mutex and is not repeated inside it, so every caller that found the token expired makes a
  refresh call of its own: the calls made and the calls owed by the callers that are past
  the test never decrease, so when all have returned at least as many calls were made as
  callers were past the test at any earlier moment; the calls made equal the number of
  callers returned with \<^verbatim>\<open>refreshed = true\<close> and are at most the number \<open>n\<close> of callers.
  When the token is expired, all \<open>n\<close> callers can make the test before the first refresh
  completes; from there every run to the end makes exactly \<open>n\<close> refresh calls, whatever
  the token endpoint answers, and such a run exists.
\<close>

theorem refresh_calls_one_per_expired_caller:
  "(rtranclp caller_step (manager_init tok n) m \<longrightarrow>
      count (callers m) InRefresh \<le> 1
      \<and> refresh_calls m = count (callers m) (Returned True)
      \<and> refresh_calls m \<le> n)
   \<and> (rtranclp caller_step m0 m1 \<and> all_returned m1 \<longrightarrow>
        refresh_calls m0 + count (callers m0) AtLock + count (callers m0) InRefresh
          \<le> refresh_calls m1)
   \<and> (\<not> token_valid tok now \<longrightarrow>
        rtranclp caller_step (manager_init tok n) (all_at_lock tok n))
   \<and> (rtranclp caller_step (all_at_lock tok n) m' \<and> all_returned m' \<longrightarrow>
        refresh_calls m' = n \<and> callers m' = replicate_mset n (Returned True))
   \<and> (\<exists>m''. rtranclp caller_step (all_at_lock tok n) m'' \<and> all_returned m'')"
proof (intro conjI impI)
  assume r: "rtranclp caller_step (manager_init tok n) m"
  then have i: "manager_inv n m" by (rule manager_inv_reach)
  have "count (callers m) (Returned True) \<le> size (callers m)"
    by (rule count_le_size)
  then show "count (callers m) InRefresh \<le> 1"
    "refresh_calls m = count (callers m) (Returned True)" "refresh_calls m \<le> n"
    using i by (auto simp: manager_inv_def split: if_splits)
next
  assume a: "rtranclp caller_step m0 m1 \<and> all_returned m1"
  then have "refreshes_due m0 \<le> refreshes_due m1" by (intro refreshes_due_reach) simp
  then show "refresh_calls m0 + count (callers m0) AtLock + count (callers m0) InRefresh
      \<le> refresh_calls m1"
    using a by (simp add: refreshes_due_def all_returned_def)
next
  assume "\<not> token_valid tok now"
  then show "rtranclp caller_step (manager_init tok n) (all_at_lock tok n)"
    by (rule all_reach_lock)
next
  assume a: "rtranclp caller_step (all_at_lock tok n) m' \<and> all_returned m'"
  then show "refresh_calls m' = n" "callers m' = replicate_mset n (Returned True)"
    using from_all_at_lock [of tok n m'] by simp_all
next
  show "\<exists>m''. rtranclp caller_step (all_at_lock tok n) m'' \<and> all_returned m''"
    by (rule all_at_lock_completes)
qed

theorem refresh_calls_one_per_expired_caller_witness:
  "rtranclp caller_step (manager_init \<lparr>accessToken = [], expiresAt = 0\<rparr> 2)
     \<lparr> accessTokenMap = \<lparr>accessToken = ''B'', expiresAt = 3585000000000\<rparr>,
       accessTokenMu = False, refresh_calls = 2,
       callers = {#Returned True, Returned True#} \<rparr>
   \<and> count {#Returned True, Returned True#} InRefresh \<le> 1
   \<and> (2::nat) = count {#Returned True, Returned True#} (Returned True)
   \<and> \<not> token_valid \<lparr>accessToken = [], expiresAt = 0\<rparr> 0
   \<and> rtranclp caller_step (manager_init \<lparr>accessToken = [], expiresAt = 0\<rparr> 2)
       (all_at_lock \<lparr>accessToken = [], expiresAt = 0\<rparr> 2)
   \<and> rtranclp caller_step (all_at_lock \<lparr>accessToken = [], expiresAt = 0\<rparr> 2)
       \<lparr> accessTokenMap = \<lparr>accessToken = ''B'', expiresAt = 3585000000000\<rparr>,
         accessTokenMu = False, refresh_calls = 2,
         callers = {#Returned True, Returned True#} \<rparr>
   \<and> all_returned
       \<lparr> accessTokenMap = \<lparr>accessToken = ''B'', expiresAt = 3585000000000\<rparr>,
         accessTokenMu = False, refresh_calls = 2,
         callers = {#Returned True, Returned True#} \<rparr>
   \<and> refresh_calls (all_at_lock \<lparr>accessToken = [], expiresAt = 0\<rparr> 2)
       + count (callers (all_at_lock \<lparr>accessToken = [], expiresAt = 0\<rparr> 2)) AtLock
       + count (callers (all_at_lock \<lparr>accessToken = [], expiresAt = 0\<rparr> 2)) InRefresh
       \<le> (2::nat)"
proof -
  let ?t0 = "\<lparr>accessToken = [], expiresAt = 0\<rparr>"
  let ?end = "\<lparr> accessTokenMap = \<lparr>accessToken = ''B'', expiresAt = 3585000000000\<rparr>,
       accessTokenMu = False, refresh_calls = 2,
       callers = {#Returned True, Returned True#} \<rparr>"
  have v: "\<not> token_valid ?t0 0" by (simp add: token_valid_def)
  have d: "all_returned ?end" by (simp add: all_returned_def)
  from refresh_calls_one_per_expired_caller [where tok = ?t0 and n = 2 and m = ?end
      and ?m0.0 = "all_at_lock ?t0 2" and ?m1.0 = ?end and now = 0 and m' = ?end]
  show ?thesis
    using two_callers_run two_callers_from_lock v d by simp
qed

text \<open>
  Claim C2 as stated fails: two callers that both find the token expired make two refresh
  calls, and the token the first one obtained (\<open>A\<close>) is replaced by the second one's
  (\<open>B\<close>).
\<close>

theorem two_callers_two_refreshes:
  "rtranclp caller_step (manager_init \<lparr>accessToken = [], expiresAt = 0\<rparr> 2)
     \<lparr> accessTokenMap = \<lparr>accessToken = ''B'', expiresAt = 3585000000000\<rparr>,
       accessTokenMu = False, refresh_calls = 2,
       callers = {#Returned True, Returned True#} \<rparr>
   \<and> refresh_calls
       \<lparr> accessTokenMap = \<lparr>accessToken = ''B'', expiresAt = 3585000000000\<rparr>,
         accessTokenMu = False, refresh_calls = 2,
         callers = {#Returned True, Returned True#} \<rparr> \<noteq> 1"
  using two_callers_run by simp

subsection \<open>Paginated listings\<close>

text \<open>
  Whatever page the server sends, the loop of the mobile client reads the zero value of
  \<^verbatim>\<open>resJson\<close>: it collects nothing, finds no next URL and ends after the one request.
\<close>

lemma listing_loop_one_request:
  assumes "nextUrl \<noteq> []"
  shows "listing_loop hasMax maxOffset artworkType nextUrl cur po
           (PageJson illusts next_url # replies)
     = \<lparr> ended = Done,
         requests = [\<lparr> req_url = nextUrl, req_type = artworkType, req_offset = po \<rparr>],
         collected = [], params_offset = cur + 30, unread = replies \<rparr>"
  using assms
  by (cases replies)
    (simp_all add: SendRequest_into_def zero_ArtworksJson_def ProcessMultipleArtworkJson_def
      Let_def)

text \<open>
  Claim C5 fails on the code, in the loop of the mobile client. The claim lets a listing go
  on until a maximum page is exceeded or the server reports zero items or no next URL. On
  a server whose first page has items and a \<^verbatim>\<open>next_url\<close>, with no maximum page set,
  \<^verbatim>\<open>GetIllustratorPosts\<close> ends after that one request with nothing collected:
  \<^verbatim>\<open>SendRequest\<close> decodes the page into its own variable, and the loop reads a
  \<^verbatim>\<open>resJson\<close> that was never written.
\<close>

theorem GetIllustratorPosts_ends_after_first_page:
  "GetIllustratorPosts_listing baseUrl False minOffset maxOffset ''illust''
       (PageJson (illust # illusts) (Some (c # next_url)) # replies)
     = \<lparr> ended = Done,
         requests = [\<lparr> req_url = baseUrl @ ''/v1/user/illusts'', req_type = ''illust'',
                       req_offset = minOffset \<rparr>],
         collected = [], params_offset = minOffset + 30, unread = replies \<rparr>"
  by (simp add: GetIllustratorPosts_listing_def Let_def listing_loop_one_request
      del: listing_loop.simps)

text \<open>
  The tag search loop of the web client reads its pages itself. It counts up to
  \<open>minPage\<close> without sending anything, so it may be looked at from the page before
  \<open>minPage\<close> on. It stops before a request exactly when a maximum page is set and the page
  number exceeds it, and after a request exactly when the page decoded to zero items or the
  next page number exceeds a set maximum; a page whose request or decoding failed is
  skipped.
\<close>

lemma tagSearch_loop_skip:
  assumes "page + 1 < minPage"
  shows "tagSearch_loop minPage maxPage hasMax page replies
     = tagSearch_loop minPage maxPage hasMax (minPage - 1) replies"
  using assms
proof (induction "nat (minPage - page)" arbitrary: page)
  case 0
  then show ?case by simp
next
  case (Suc n)
  have step: "tagSearch_loop minPage maxPage hasMax page replies
      = tagSearch_loop minPage maxPage hasMax (page + 1) replies"
    using Suc.prems by (subst tagSearch_loop.simps) (simp add: Let_def)
  show ?case
  proof (cases "page + 2 < minPage")
    case True
    have "n = nat (minPage - (page + 1))" using Suc.hyps(2) by simp
    from Suc.hyps(1) [OF this] True step show ?thesis by simp
  next
    case False
    then have e: "minPage - 1 = page + 1" using Suc.prems by simp
    show ?thesis unfolding e by (rule step)
  qed
qed

lemma tagSearch_loop_no_request:
  assumes "minPage \<le> page + 1"
  shows "pages (tagSearch_loop minPage maxPage hasMax page (reply # replies)) = []
     \<longleftrightarrow> hasMax \<and> maxPage < page + 1"
  using assms
  by (subst tagSearch_loop.simps) (auto simp: Let_def split: tag_reply.splits)

lemma tagSearch_loop_one_request:
  assumes "minPage \<le> page + 1" and "\<not> (hasMax \<and> maxPage < page + 1)"
  shows "length (pages (tagSearch_loop minPage maxPage hasMax page (reply # reply2 # replies))) = 1
     \<longleftrightarrow> reply = TagIds [] \<or> (hasMax \<and> maxPage < page + 2)"
proof -
  let ?more = "tagSearch_loop minPage maxPage hasMax (page + 1) (reply2 # replies)"
  have more: "pages ?more = [] \<longleftrightarrow> hasMax \<and> maxPage < page + 2"
    using tagSearch_loop_no_request [of minPage "page + 1" maxPage hasMax reply2 replies] assms(1)
    by (simp add: algebra_simps)
  show ?thesis
  proof (cases "reply = TagIds []")
    case True
    then show ?thesis using assms
      by (subst tagSearch_loop.simps) (simp add: Let_def)
  next
    case False
    then have "length (pages (tagSearch_loop minPage maxPage hasMax page
                 (reply # reply2 # replies))) = 1
       \<longleftrightarrow> pages ?more = []"
      using assms
      by (subst tagSearch_loop.simps) (auto simp: Let_def split: tag_reply.splits)
    then show ?thesis using more False by simp
  qed
qed

text \<open>
  Claim C6 fails on the code. For the artwork type \<^verbatim>\<open>"all"\<close> the function lists the
  illustrations and then jumps back to \<^verbatim>\<open>startLoop\<close> to list the manga. The jump resets
  \<^verbatim>\<open>curOffset\<close> to \<open>minOffset\<close> but not \<^verbatim>\<open>params["offset"]\<close>, which the first pass left
  at \<open>minOffset + 30\<close>: the first manga request is sent with the offset
  \<open>minOffset + 30\<close> instead of \<open>minOffset\<close>.
\<close>

theorem GetIllustratorPosts_manga_stale_offset:
  "requests (GetIllustratorPosts_listing baseUrl hasMax minOffset maxOffset ''all''
       (PageJson illusts next_url # PageJson manga next_url' # replies))
     = [\<lparr> req_url = baseUrl @ ''/v1/user/illusts'', req_type = ''illust'',
          req_offset = minOffset \<rparr>,
        \<lparr> req_url = baseUrl @ ''/v1/user/illusts'', req_type = ''manga'',
          req_offset = minOffset + 30 \<rparr>]"
  by (simp add: GetIllustratorPosts_listing_def Let_def listing_loop_one_request
      del: listing_loop.simps)

subsection \<open>Batches of concurrent requests\<close>

lemma one_outcomeD:
  "one_outcome worker \<Longrightarrow> pending (worker j p) = pending p \<and> queue (worker j p) = queue p
     \<and> outcomes (worker j p) = add_mset (fst j) (outcomes p)"
  unfolding one_outcome_def by blast






text \<open>
  Every step uses up a waiting or a running job, so a run of the batch is finite; and with
  a slot to give, a batch that is not at its end can take a step.
\<close>

lemma step_measure:
  assumes "pool_step cap worker p p'" and "one_outcome worker"
  shows "2 * length (pending p') + size (queue p') < 2 * length (pending p) + size (queue p)"
  using assms
proof (induction rule: pool_step.induct)
  case (admit p j rest)
  then show ?case by simp
next
  case (finish p j Q)
  then show ?case using one_outcomeD [of worker j p] by simp
qed

lemma no_deadlock:
  assumes "0 < cap" and "\<not> pool_done p"
  shows "\<exists>p'. pool_step cap worker p p'"
proof (cases "queue p = {#}")
  case True
  with assms(2) obtain j rest where "pending p = j # rest"
    by (auto simp: pool_done_def neq_Nil_conv)
  then show ?thesis using True assms(1) by (auto intro!: exI pool_step.admit)
next
  case False
  then obtain j Q where "queue p = add_mset j Q" by (meson multiset_cases)
  then show ?thesis by (auto intro!: exI pool_step.finish)
qed





















subsection \<open>Cookie files\<close>

lemma parseTxtCookieLine_Name:
  "parseTxtCookieLine l a = Some c \<Longrightarrow> CookieName c = args_name a"
  by (auto simp: parseTxtCookieLine_def Let_def split: if_splits option.splits)

lemma parseTxtCookieFile_loop_Name:
  "parseTxtCookieFile_loop ls a cs = Inr cs' \<Longrightarrow> \<forall>c\<in>set cs. CookieName c = args_name a
     \<Longrightarrow> \<forall>c\<in>set cs'. CookieName c = args_name a"
proof (induction ls a cs rule: parseTxtCookieFile_loop.induct)
  case (1 cookieArgs cookies)
  then show ?case by simp
next
  case (2 rest cookieArgs cookies)
  then show ?case by simp
next
  case (3 lineBytes rest cookieArgs cookies)
  show ?case
  proof (cases "parseTxtCookieLine lineBytes cookieArgs")
    case None
    with 3 show ?thesis by simp
  next
    case (Some cookie)
    then have "CookieName cookie = args_name cookieArgs" by (rule parseTxtCookieLine_Name)
    with 3 Some show ?thesis by simp
  qed
qed

lemma parseJsonCookie_Name:
  "parseJsonCookie e a = Some c \<Longrightarrow> CookieName c = args_name a"
  by (auto simp: parseJsonCookie_def Let_def split: if_splits)

lemma parseJsonCookieFile_loop_Name:
  "\<forall>c\<in>set cs. CookieName c = args_name a
     \<Longrightarrow> \<forall>c\<in>set (parseJsonCookieFile_loop es a cs). CookieName c = args_name a"
proof (induction es arbitrary: cs)
  case Nil
  then show ?case by simp
next
  case (Cons e es)
  show ?case
  proof (cases "parseJsonCookie e a")
    case None
    then show ?thesis using Cons by simp
  next
    case (Some c)
    then have "CookieName c = args_name a" by (rule parseJsonCookie_Name)
    then have "\<forall>c\<in>set (cs @ [c]). CookieName c = args_name a" using Cons.prems by simp
    from Cons.IH [OF this] show ?thesis using Some by simp
  qed
qed

text \<open>
  Claim C9. \<^verbatim>\<open>ParseNetscapeCookieFile\<close> returns an error whenever the cookie file path
  and the session id are both non-empty. Whenever it returns without an error, the cookie
  slice is non-empty, the website is one of the known sites, and every cookie of the slice
  has the name of that site's session cookie.
\<close>

theorem ParseNetscapeCookieFile_result:
  "(filePath \<noteq> [] \<and> sessionId \<noteq> [] \<longrightarrow>
      (\<exists>e. ParseNetscapeCookieFile os_Open filePath sessionId website = Err e))
   \<and> (ParseNetscapeCookieFile os_Open filePath sessionId website = Cookies cs \<longrightarrow>
        cs \<noteq> []
        \<and> (\<exists>info. GetSessionCookieInfo website = Some info
              \<and> (\<forall>c\<in>set cs. CookieName c = info_Name info)))"
proof (intro conjI impI)
  assume "filePath \<noteq> [] \<and> sessionId \<noteq> []"
  then show "\<exists>e. ParseNetscapeCookieFile os_Open filePath sessionId website = Err e"
    by (simp add: ParseNetscapeCookieFile_def)
next
  assume r: "ParseNetscapeCookieFile os_Open filePath sessionId website = Cookies cs"
  then show "cs \<noteq> []"
    by (auto simp: ParseNetscapeCookieFile_def Let_def split: if_splits option.splits sum.splits)
next
  assume r: "ParseNetscapeCookieFile os_Open filePath sessionId website = Cookies cs"
  then obtain info f where i: "GetSessionCookieInfo website = Some info"
    and "os_Open filePath = Some f"
    and p: "(if Ext filePath = ''.txt''
             then parseTxtCookieFile f
                    \<lparr> args_name = info_Name info, args_sameSite = info_SameSite info \<rparr>
             else if Ext filePath = ''.json''
             then parseJsonCookieFile f
                    \<lparr> args_name = info_Name info, args_sameSite = info_SameSite info \<rparr>
             else Inl INPUT_ERROR) = Inr cs"
    by (auto simp: ParseNetscapeCookieFile_def Let_def split: if_splits option.splits sum.splits)
  let ?a = "\<lparr> args_name = info_Name info, args_sameSite = info_SameSite info \<rparr>"
  have "\<forall>c\<in>set cs. CookieName c = args_name ?a"
  proof (cases "Ext filePath = ''.txt''")
    case True
    with p have "parseTxtCookieFile_loop (file_lines f) ?a [] = Inr cs"
      by (simp add: parseTxtCookieFile_def)
    from parseTxtCookieFile_loop_Name [OF this] show ?thesis by simp
  next
    case False
    with p obtain es where "file_json f = Some es" "cs = parseJsonCookieFile_loop es ?a []"
      by (auto simp: parseJsonCookieFile_def split: if_splits option.splits)
    then show ?thesis using parseJsonCookieFile_loop_Name [of "[]" ?a es] by simp
  qed
  then show "\<exists>info. GetSessionCookieInfo website = Some info
      \<and> (\<forall>c\<in>set cs. CookieName c = info_Name info)"
    using i by simp
qed

lemma example_cookie_file_parsed:
  "ParseNetscapeCookieFile (\<lambda>path. if path = ''c.txt'' then Some example_cookie_file else None)
      ''c.txt'' [] FANTIA
     = Cookies [\<lparr> CookieName = ''_session_id'', CookieValue = ''abc'', CookieDomain = ''fantia.jp'',
                  CookiePath = ''/'', CookieSecure = True, CookieHttpOnly = True,
                  CookieSameSite = SameSiteLaxMode, CookieExpires = Some 1700000000 \<rparr>]"
  by (simp add: ParseNetscapeCookieFile_def example_cookie_file_def Ext_def parseTxtCookieFile_def
      parseTxtCookieLine_def TrimSpace_def is_space_def HasPrefix_def Split_def Atoi_def
      digits_val_def digit_val_def is_digit_def Let_def)

theorem ParseNetscapeCookieFile_result_witness:
  "(''c.txt'' \<noteq> [] \<and> ''s'' \<noteq> [])
   \<and> (\<exists>e. ParseNetscapeCookieFile
          (\<lambda>path. if path = ''c.txt'' then Some example_cookie_file else None)
          ''c.txt'' ''s'' FANTIA = Err e)
   \<and> ParseNetscapeCookieFile (\<lambda>path. if path = ''c.txt'' then Some example_cookie_file else None)
        ''c.txt'' [] FANTIA
       = Cookies [\<lparr> CookieName = ''_session_id'', CookieValue = ''abc'',
                    CookieDomain = ''fantia.jp'', CookiePath = ''/'', CookieSecure = True,
                    CookieHttpOnly = True, CookieSameSite = SameSiteLaxMode,
                    CookieExpires = Some 1700000000 \<rparr>]
   \<and> (\<exists>info. GetSessionCookieInfo FANTIA = Some info \<and> ''_session_id'' = info_Name info)"
  using ParseNetscapeCookieFile_result [where filePath = "''c.txt''" and sessionId = "''s''"
      and website = FANTIA
      and os_Open = "\<lambda>path. if path = ''c.txt'' then Some example_cookie_file else None"]
    ParseNetscapeCookieFile_result [where filePath = "''c.txt''" and sessionId = "[]"
      and website = FANTIA
      and os_Open = "\<lambda>path. if path = ''c.txt'' then Some example_cookie_file else None"
      and cs = "[\<lparr> CookieName = ''_session_id'', CookieValue = ''abc'',
                    CookieDomain = ''fantia.jp'', CookiePath = ''/'', CookieSecure = True,
                    CookieHttpOnly = True, CookieSameSite = SameSiteLaxMode,
                    CookieExpires = Some 1700000000 \<rparr>]"]
    example_cookie_file_parsed
  by simp

subsection \<open>Download jobs\<close>

lemma stream_to_other: "q \<noteq> path \<Longrightarrow> stream_to path chunks files q = files q"
  by (induction chunks arbitrary: files) simp_all

lemma stream_to_path:
  "stream_to path chunks (files(path \<mapsto> written)) path = Some (written @ concat chunks)"
  by (induction chunks arbitrary: files written) simp_all

text \<open>
  Claim C8, on the download job modelled from the specification. With a temporary path
  other than the destination and no file at the destination beforehand: a job whose
  transport fails, after however many bytes, leaves no file at the destination and reports
  failure; a job whose transport completes leaves the whole body at the destination and no
  temporary file.
\<close>

theorem download_promotes_only_on_success:
  assumes "temporary \<noteq> destination" and "files destination = None"
  shows "(\<not> completes \<longrightarrow>
            fst (download_job remove_partial temporary destination (Transport chunks completes)
                   files) destination = None
            \<and> \<not> snd (download_job remove_partial temporary destination
                       (Transport chunks completes) files))
     \<and> (completes \<longrightarrow>
            fst (download_job remove_partial temporary destination (Transport chunks completes)
                   files) destination = Some (concat chunks)
            \<and> fst (download_job remove_partial temporary destination (Transport chunks completes)
                   files) temporary = None)"
  using assms stream_to_other [of destination temporary chunks "files(temporary \<mapsto> [])"]
    stream_to_path [of temporary chunks files "[]"]
  by (auto simp: Let_def)

theorem download_promotes_only_on_success_witness:
  "''a.part'' \<noteq> ''a'' \<and> (Map.empty :: storage) ''a'' = None
   \<and> fst (download_job False ''a.part'' ''a'' (Transport [''xy'', ''z''] False) Map.empty) ''a''
       = None
   \<and> \<not> snd (download_job False ''a.part'' ''a'' (Transport [''xy'', ''z''] False) Map.empty)
   \<and> fst (download_job False ''a.part'' ''a'' (Transport [''xy'', ''z''] True) Map.empty) ''a''
       = Some ''xyz''"
proof -
  have h1: "''a.part'' \<noteq> ''a''" by simp
  have h2: "(Map.empty :: storage) ''a'' = None" by simp
  from download_promotes_only_on_success [OF h1 h2, of False False "[''xy'', ''z'']"]
    download_promotes_only_on_success [OF h1 h2, of True False "[''xy'', ''z'']"]
  show ?thesis using h1 by simp
qed

end
